theory Spec2Isabelle
  imports Complex_Main "HOL-Library.Log_Nat"
begin

section \<open>Arrays\<close>

text \<open>
  The exceptions the operations raise. numpy's AxisError is raised by axis normalisation;
  ValueError by shape checks; IndexError by Python list indexing; TypeError by
  \<^verbatim>\<open>functools.reduce\<close> on an empty sequence.
\<close>

datatype error = ValueError | IndexError | AxisError | TypeError

text \<open>
  A dense numpy array: its shape and its elements in C (row-major) order, which is the
  order \<^verbatim>\<open>reshape\<close> and \<^verbatim>\<open>ravel\<close> read them in.
\<close>

record 'a ndarray =
  shape :: "nat list"
  flat :: "'a list"

definition well_formed :: "'a ndarray \<Rightarrow> bool" where
  "well_formed a = (length (flat a) = prod_list (shape a))"

definition ndim :: "'a ndarray \<Rightarrow> nat" where
  "ndim a = length (shape a)"

text \<open>Strides of a C-contiguous array, counted in elements.\<close>

fun c_strides :: "nat list \<Rightarrow> nat list" where
  "c_strides [] = []"
| "c_strides (d # ds) = prod_list ds # c_strides ds"

text \<open>The multi-index of the \<open>k\<close>-th element in C order.\<close>

fun unravel_index :: "nat \<Rightarrow> nat list \<Rightarrow> nat list" where
  "unravel_index k [] = []"
| "unravel_index k (d # ds) = (k div prod_list ds) # unravel_index (k mod prod_list ds) ds"

definition offset :: "nat list \<Rightarrow> nat list \<Rightarrow> nat" where
  "offset idx strides = sum_list (map2 (*) idx strides)"

text \<open>
  \<^verbatim>\<open>np.transpose(a, axes)\<close>: axis \<open>j\<close> of the result is axis \<open>axes[j]\<close> of \<open>a\<close>; numpy
  permutes shape and strides, and the elements are read through the permuted strides.
\<close>

definition np_transpose :: "'a ndarray \<Rightarrow> nat list \<Rightarrow> 'a ndarray" where
  "np_transpose a axes =
     (let sh = map (\<lambda>ax. shape a ! ax) axes;
          st = map (\<lambda>ax. c_strides (shape a) ! ax) axes
      in \<lparr>shape = sh,
          flat = map (\<lambda>k. flat a ! offset (unravel_index k sh) st) [0..<prod_list sh]\<rparr>)"

text \<open>Python's index normalisation: a negative index counts from the end.\<close>

definition normalize_index :: "int \<Rightarrow> nat \<Rightarrow> nat option" where
  "normalize_index i n =
     (if 0 \<le> i \<and> i < int n then Some (nat i)
      else if - int n \<le> i \<and> i < 0 then Some (nat (i + int n))
      else None)"

definition normalize_axis_index :: "int \<Rightarrow> nat \<Rightarrow> error + nat" where
  "normalize_axis_index axis n =
     (case normalize_index axis n of None \<Rightarrow> Inl AxisError | Some ax \<Rightarrow> Inr ax)"

text \<open>
  \<^verbatim>\<open>np.moveaxis(a, source, destination)\<close> for one axis: the other axes keep their order,
  \<open>source\<close> is inserted at position \<open>destination\<close>, and the array is transposed.
\<close>

definition moveaxis :: "'a ndarray \<Rightarrow> int \<Rightarrow> int \<Rightarrow> error + 'a ndarray" where
  "moveaxis a source destination =
     (case normalize_axis_index source (ndim a) of
        Inl e \<Rightarrow> Inl e
      | Inr s \<Rightarrow>
          (case normalize_axis_index destination (ndim a) of
             Inl e \<Rightarrow> Inl e
           | Inr d \<Rightarrow>
               (let order = filter (\<lambda>n. n \<noteq> s) [0..<ndim a]
                in Inr (np_transpose a (take d order @ s # drop d order)))))"

text \<open>
  \<^verbatim>\<open>np.reshape(a, newshape)\<close>: a negative entry of \<open>newshape\<close> is the one unknown
  dimension, inferred from the size; numpy refuses to infer it when the known
  dimensions multiply to zero or do not divide the size.
\<close>

definition reshape :: "'a ndarray \<Rightarrow> int list \<Rightarrow> error + 'a ndarray" where
  "reshape a newshape =
     (let s_original = prod_list (shape a);
          s_known = nat (prod_list (filter (\<lambda>d. 0 \<le> d) newshape));
          n_unknown = length (filter (\<lambda>d. d < 0) newshape)
      in if 1 < n_unknown then Inl ValueError
         else if n_unknown = 1 then
           (if s_known = 0 \<or> s_original mod s_known \<noteq> 0 then Inl ValueError
            else Inr \<lparr>shape = map (\<lambda>d. if d < 0 then s_original div s_known else nat d) newshape,
                      flat = flat a\<rparr>)
         else if s_original \<noteq> s_known then Inl ValueError
         else Inr \<lparr>shape = map nat newshape, flat = flat a\<rparr>)"

section \<open>Unfolding and folding\<close>

text \<open>
  \<open>unfold\<close> of the source: the mode is moved to the front and the array reshaped to
  \<open>(tensor.shape[mode], -1)\<close>. \<^verbatim>\<open>np.moveaxis\<close> is evaluated first, so a mode out of
  range is an AxisError.
\<close>

definition unfold :: "'a ndarray \<Rightarrow> int \<Rightarrow> error + 'a ndarray" where
  "unfold tensor mode =
     (case moveaxis tensor mode 0 of
        Inl e \<Rightarrow> Inl e
      | Inr moved \<Rightarrow>
          (case normalize_index mode (length (shape tensor)) of
             None \<Rightarrow> Inl IndexError
           | Some m \<Rightarrow> reshape moved [int (shape tensor ! m), - 1]))"

text \<open>\<^verbatim>\<open>list.pop(i)\<close>: the element removed and the list left.\<close>

definition pop :: "'a list \<Rightarrow> int \<Rightarrow> error + ('a \<times> 'a list)" where
  "pop xs i =
     (case normalize_index i (length xs) of
        None \<Rightarrow> Inl IndexError
      | Some j \<Rightarrow> Inr (xs ! j, take j xs @ drop (Suc j) xs))"

text \<open>
  \<open>fold\<close> of the source, named \<open>fold_nd\<close> here because \<open>fold\<close> is the list combinator:
  the mode's dimension is moved to the front of the shape, the matrix is reshaped to
  that shape, and the first axis is moved back to position \<open>mode\<close>.
\<close>

definition fold_nd :: "'a ndarray \<Rightarrow> int \<Rightarrow> nat list \<Rightarrow> error + 'a ndarray" where
  "fold_nd matrix mode shp =
     (case pop shp mode of
        Inl e \<Rightarrow> Inl e
      | Inr (mode_dim, rest) \<Rightarrow>
          (let full_shape = mode_dim # rest
           in case reshape matrix (map int full_shape) of
                Inl e \<Rightarrow> Inl e
              | Inr t \<Rightarrow> moveaxis t 0 mode))"

section \<open>Mode-n product\<close>

text \<open>\<^verbatim>\<open>xs[i] = v\<close> on a Python list.\<close>

definition setitem :: "'a list \<Rightarrow> int \<Rightarrow> 'a \<Rightarrow> error + 'a list" where
  "setitem xs i v =
     (case normalize_index i (length xs) of
        None \<Rightarrow> Inl IndexError
      | Some j \<Rightarrow> Inr (xs[j := v]))"

text \<open>
  \<^verbatim>\<open>np.dot\<close> of two 2-D arrays. \<open>mode_n_product\<close> calls it with a matrix it has checked to
  be 2-D and with an unfolding, which is 2-D; the other ranks \<^verbatim>\<open>np.dot\<close> accepts are not
  reached and are not modelled. Only \<open>+\<close>, \<open>*\<close> and \<open>0\<close> of the element type are used,
  with no law assumed of them.
\<close>

definition dot :: "'a::{plus,times,zero} ndarray \<Rightarrow> 'a ndarray \<Rightarrow> error + 'a ndarray" where
  "dot a b =
     (case (shape a, shape b) of
        ([m, n], [n', p]) \<Rightarrow>
          if n \<noteq> n' then Inl ValueError
          else Inr \<lparr>shape = [m, p],
                    flat = map (\<lambda>k. foldl (+) 0
                                 (map (\<lambda>l. flat a ! ((k div p) * n + l) * flat b ! (l * p + k mod p))
                                      [0..<n]))
                               [0..<m * p]\<rparr>
      | _ \<Rightarrow> Inl ValueError)"

definition mode_n_product ::
  "'a::{plus,times,zero} ndarray \<Rightarrow> 'a ndarray \<Rightarrow> int \<Rightarrow> error + 'a ndarray" where
  "mode_n_product tensor matrix mode =
     (if ndim matrix \<noteq> 2 then Inl ValueError
      else case setitem (shape tensor) mode (shape matrix ! 0) of
             Inl e \<Rightarrow> Inl e
           | Inr new_shape \<Rightarrow>
               (case unfold tensor mode of
                  Inl e \<Rightarrow> Inl e
                | Inr u \<Rightarrow>
                    (case dot matrix u of
                       Inl e \<Rightarrow> Inl e
                     | Inr mu \<Rightarrow> fold_nd mu mode new_shape)))"

section \<open>Products of lists of matrices\<close>

text \<open>
  The two steps the three products start with:
  \<^verbatim>\<open>[matrices[i] for i in range(len(matrices)) if i != skip_matrix]\<close> when \<open>skip_matrix\<close>
  is given, then \<^verbatim>\<open>matrices[::-1]\<close> when \<open>reverse\<close> is set. The comparison
  \<^verbatim>\<open>i != skip_matrix\<close> is between integers: a negative or too large \<open>skip_matrix\<close>
  skips nothing.
\<close>

definition skip_filter :: "'a list \<Rightarrow> int option \<Rightarrow> 'a list" where
  "skip_filter matrices skip_matrix =
     (case skip_matrix of
        None \<Rightarrow> matrices
      | Some k \<Rightarrow> map (\<lambda>i. matrices ! i) (filter (\<lambda>i. int i \<noteq> k) [0..<length matrices]))"

definition skip_reverse :: "'a list \<Rightarrow> int option \<Rightarrow> bool \<Rightarrow> 'a list" where
  "skip_reverse matrices skip_matrix reverse =
     (let ms = skip_filter matrices skip_matrix in if reverse then rev ms else ms)"

text \<open>\<^verbatim>\<open>matrix[:, i]\<close> of a 2-D array.\<close>

definition column :: "'a ndarray \<Rightarrow> nat \<Rightarrow> 'a list" where
  "column matrix i =
     map (\<lambda>r. flat matrix ! (r * (shape matrix ! 1) + i)) [0..<shape matrix ! 0]"

text \<open>\<^verbatim>\<open>np.einsum('i,j->ij', u, v)\<close>, the outer product, and \<^verbatim>\<open>ravel\<close>.\<close>

definition einsum_outer :: "'a::times list \<Rightarrow> 'a list \<Rightarrow> 'a ndarray" where
  "einsum_outer u v =
     \<lparr>shape = [length u, length v], flat = concat (map (\<lambda>x. map (\<lambda>y. x * y) v) u)\<rparr>"

definition ravel :: "'a ndarray \<Rightarrow> 'a list" where
  "ravel a = flat a"

text \<open>The first loop of \<open>khatri_rao\<close>: the column check and the row count.\<close>

fun kr_rows :: "nat \<Rightarrow> nat \<Rightarrow> 'a ndarray list \<Rightarrow> error + nat" where
  "kr_rows n_rows n_cols [] = Inr n_rows"
| "kr_rows n_rows n_cols (matrix # rest) =
     (case shape matrix of
        r # c # _ \<Rightarrow>
          if c \<noteq> n_cols then Inl ValueError else kr_rows (n_rows * r) n_cols rest
      | _ \<Rightarrow> Inl IndexError)"

text \<open>
  The inner loop: \<open>temp\<close> accumulates the product of the \<open>i\<close>-th columns. \<^verbatim>\<open>einsum\<close> with
  the subscripts \<^verbatim>\<open>'i,j->ij'\<close> refuses an operand that is not 1-D, which
  \<^verbatim>\<open>matrix[:, i]\<close> is only for a 2-D matrix.
\<close>

fun kr_column :: "'a::times list \<Rightarrow> nat \<Rightarrow> 'a ndarray list \<Rightarrow> error + 'a list" where
  "kr_column temp i [] = Inr temp"
| "kr_column temp i (matrix # rest) =
     (if ndim matrix \<noteq> 2 then Inl ValueError
      else kr_column (ravel (einsum_outer temp (column matrix i))) i rest)"

text \<open>
  \<^verbatim>\<open>np.zeros(shape)\<close>: an array of float64 zeros, whatever the element type of the
  inputs. The element type \<open>'b\<close> of the result stands for float64.
\<close>

definition zeros :: "nat list \<Rightarrow> 'b::zero ndarray" where
  "zeros shp = \<lparr>shape = shp, flat = replicate (prod_list shp) 0\<rparr>"

text \<open>
  \<^verbatim>\<open>result[:, i] = temp\<close>: numpy casts the elements of \<open>temp\<close> to the element type of
  \<open>result\<close>, which is float64. The cast \<open>astype\<close> of the inputs' element type to float64
  is a parameter: it is the identity on float64 inputs, rounds integers beyond 53 bits
  and drops the imaginary part of complex numbers.
\<close>

definition set_column :: "('a \<Rightarrow> 'b) \<Rightarrow> 'b ndarray \<Rightarrow> nat \<Rightarrow> 'a list \<Rightarrow> 'b ndarray" where
  "set_column astype result i temp =
     result\<lparr>flat := map (\<lambda>k. if k mod (shape result ! 1) = i
                               then astype (temp ! (k div (shape result ! 1)))
                               else flat result ! k)
                        [0..<length (flat result)]\<rparr>"

text \<open>The outer loop over the columns \<open>i\<close>.\<close>

fun kr_fill ::
  "('a::times \<Rightarrow> 'b) \<Rightarrow> 'a ndarray \<Rightarrow> 'a ndarray list \<Rightarrow> nat list \<Rightarrow> 'b ndarray
     \<Rightarrow> error + 'b ndarray" where
  "kr_fill astype first rest [] result = Inr result"
| "kr_fill astype first rest (i # cols) result =
     (case kr_column (column first i) i rest of
        Inl e \<Rightarrow> Inl e
      | Inr temp \<Rightarrow> kr_fill astype first rest cols (set_column astype result i temp))"

text \<open>
  \<open>khatri_rao\<close> of the source; its first argument is the cast to float64 that the
  assignment into \<open>result\<close> applies.
\<close>

definition khatri_rao ::
  "('a::times \<Rightarrow> 'b::zero) \<Rightarrow> 'a ndarray list \<Rightarrow> int option \<Rightarrow> bool \<Rightarrow> error + 'b ndarray" where
  "khatri_rao astype matrices skip_matrix reverse =
     (if length matrices < 2 then Inl ValueError
      else case skip_reverse matrices skip_matrix reverse of
             [] \<Rightarrow> Inl IndexError
           | first # rest \<Rightarrow>
               (case shape first of
                  [n_rows0, n_cols] \<Rightarrow>
                    (case kr_rows n_rows0 n_cols rest of
                       Inl e \<Rightarrow> Inl e
                     | Inr n_rows \<Rightarrow>
                         kr_fill astype first rest [0..<n_cols] (zeros [n_rows, n_cols]))
                | _ \<Rightarrow> Inl ValueError))"

text \<open>
  The cast of an int64 to float64, given by the value of the float64: the nearest number
  with a significand of 53 bits, ties to the even significand. Integers below \<open>2 ^ 53\<close>
  in magnitude are kept. Every int64 is within the range of float64, so the cast never
  overflows.
\<close>

definition float64_of_int :: "int \<Rightarrow> real" where
  "float64_of_int n =
     (let m = \<bar>n\<bar>;
          e = nat (bitlen m) - 53;
          q = m div 2 ^ e;
          r = m mod 2 ^ e;
          q' = (if 2 ^ e < 2 * r \<or> (2 * r = 2 ^ e \<and> odd q) then q + 1 else q)
      in of_int (sgn n * q' * 2 ^ e))"

text \<open>
  \<^verbatim>\<open>np.multiply\<close> with numpy's broadcasting: shapes are aligned at the right, a
  dimension of 1 is stretched (stride 0), any other mismatch is a ValueError.
\<close>

fun broadcast_dims :: "nat list \<Rightarrow> nat list \<Rightarrow> error + nat list" where
  "broadcast_dims [] [] = Inr []"
| "broadcast_dims (a # as) (b # bs) =
     (if a = b \<or> b = 1 then
        (case broadcast_dims as bs of Inl e \<Rightarrow> Inl e | Inr ds \<Rightarrow> Inr (a # ds))
      else if a = 1 then
        (case broadcast_dims as bs of Inl e \<Rightarrow> Inl e | Inr ds \<Rightarrow> Inr (b # ds))
      else Inl ValueError)"
| "broadcast_dims _ _ = Inl ValueError"

definition pad_shape :: "nat \<Rightarrow> nat list \<Rightarrow> nat list" where
  "pad_shape n shp = replicate (n - length shp) 1 @ shp"

definition broadcast_strides :: "nat \<Rightarrow> nat list \<Rightarrow> nat list" where
  "broadcast_strides n shp =
     map2 (\<lambda>d s. if d = 1 then 0 else s) (pad_shape n shp) (c_strides (pad_shape n shp))"

definition multiply :: "'a::times ndarray \<Rightarrow> 'a ndarray \<Rightarrow> error + 'a ndarray" where
  "multiply a b =
     (let n = max (ndim a) (ndim b)
      in case broadcast_dims (pad_shape n (shape a)) (pad_shape n (shape b)) of
           Inl e \<Rightarrow> Inl e
         | Inr shp \<Rightarrow>
             Inr \<lparr>shape = shp,
                  flat = map (\<lambda>k. flat a ! offset (unravel_index k shp) (broadcast_strides n (shape a))
                                 * flat b ! offset (unravel_index k shp) (broadcast_strides n (shape b)))
                             [0..<prod_list shp]\<rparr>)"

text \<open>\<^verbatim>\<open>functools.reduce(f, xs)\<close> with no initial value, for an \<open>f\<close> that may raise.\<close>

fun reduce_from :: "('a \<Rightarrow> 'a \<Rightarrow> error + 'a) \<Rightarrow> 'a \<Rightarrow> 'a list \<Rightarrow> error + 'a" where
  "reduce_from f acc [] = Inr acc"
| "reduce_from f acc (x # xs) =
     (case f acc x of Inl e \<Rightarrow> Inl e | Inr acc' \<Rightarrow> reduce_from f acc' xs)"

definition reduce :: "('a \<Rightarrow> 'a \<Rightarrow> error + 'a) \<Rightarrow> 'a list \<Rightarrow> error + 'a" where
  "reduce f xs = (case xs of [] \<Rightarrow> Inl TypeError | x # rest \<Rightarrow> reduce_from f x rest)"

definition hadamard ::
  "'a::times ndarray list \<Rightarrow> int option \<Rightarrow> bool \<Rightarrow> error + 'a ndarray" where
  "hadamard matrices skip_matrix reverse =
     reduce multiply (skip_reverse matrices skip_matrix reverse)"

text \<open>
  \<^verbatim>\<open>np.kron(a, b)\<close>: the shorter shape is padded with leading ones, the result's shape is
  the product of the two shapes, and the element at index \<open>idx\<close> is
  \<open>a[idx div shape b] * b[idx mod shape b]\<close>. It raises nothing.
\<close>

definition kron :: "'a::times ndarray \<Rightarrow> 'a ndarray \<Rightarrow> 'a ndarray" where
  "kron a b =
     (let n = max (ndim a) (ndim b);
          as = pad_shape n (shape a);
          bs = pad_shape n (shape b);
          shp = map2 (*) as bs
      in \<lparr>shape = shp,
          flat = map (\<lambda>k. flat a ! offset (map2 (div) (unravel_index k shp) bs) (c_strides as)
                         * flat b ! offset (map2 (mod) (unravel_index k shp) bs) (c_strides bs))
                     [0..<prod_list shp]\<rparr>)"

definition kronecker ::
  "'a::times ndarray list \<Rightarrow> int option \<Rightarrow> bool \<Rightarrow> error + 'a ndarray" where
  "kronecker matrices skip_matrix reverse =
     (case skip_reverse matrices skip_matrix reverse of
        [] \<Rightarrow> Inl IndexError
      | first # rest \<Rightarrow> Inr (foldl kron first rest))"

section \<open>The decomposition object\<close>

text \<open>
  Modelled from the spec: the base class of cpd.py, which is missing; its constructor
  parameters are those the tests pass. The record is polymorphic in the \<open>cost\<close> field: the
  property \<open>converged\<close> reads it as the list of costs, the object store as a reference to
  a list.
  The costs are floating-point numbers in the code and real numbers here.
\<close>

record 'c cpd =
  init :: string
  max_iter :: nat
  epsilon :: real
  tol :: real
  random_state :: "nat option"
  mode_description :: string
  verbose :: bool
  cost :: 'c

text \<open>
  Modelled from the spec: the property \<open>converged\<close> of cpd.py, which is missing: false if
  fewer than two cost values are recorded, otherwise true iff \<open>|cost[-1] - cost[-2]| < tol\<close>.
\<close>

definition converged :: "real list cpd \<Rightarrow> bool" where
  "converged self =
     (if length (cost self) < 2 then False
      else \<bar>cost self ! (length (cost self) - 1) - cost self ! (length (cost self) - 2)\<bar> < tol self)"

section \<open>The object store\<close>

text \<open>
  Python objects are shared by reference, so the claim about \<open>copy\<close> is stated over an
  explicit store: decomposition objects and lists live at references, and an object's
  \<open>cost\<close> field holds the reference of its list. \<open>fresh\<close> is the next unused reference.
\<close>

type_synonym ref = nat

record store =
  objects :: "ref \<rightharpoonup> ref cpd"
  lists :: "ref \<rightharpoonup> real list"
  fresh :: ref

definition store_ok :: "store \<Rightarrow> bool" where
  "store_ok h =
     ((\<forall>r ob. objects h r = Some ob \<longrightarrow> r < fresh h \<and> cost ob < fresh h)
      \<and> (\<forall>l xs. lists h l = Some xs \<longrightarrow> l < fresh h))"

text \<open>
  Modelled from the spec: \<open>copy\<close> of cpd.py, which is missing: a new object with every
  configuration field copied by value, whose cost is a new empty list.
\<close>

definition copy :: "store \<Rightarrow> ref \<Rightarrow> (ref \<times> store) option" where
  "copy h self =
     (case objects h self of
        None \<Rightarrow> None
      | Some ob \<Rightarrow>
          (let new_list = fresh h; new_object = Suc (fresh h)
           in Some (new_object,
                    h\<lparr>objects := (objects h)(new_object \<mapsto> ob\<lparr>cost := new_list\<rparr>),
                      lists := (lists h)(new_list \<mapsto> []),
                      fresh := Suc (Suc (fresh h))\<rparr>)))"

text \<open>
  Assigning to the fields of an object (\<open>f\<close> is the change of the fields), and changing
  its cost list in place (\<open>g\<close> is any change of the list, such as \<^verbatim>\<open>append\<close>).
\<close>

definition assign :: "store \<Rightarrow> ref \<Rightarrow> (ref cpd \<Rightarrow> ref cpd) \<Rightarrow> store" where
  "assign h r f =
     (case objects h r of
        None \<Rightarrow> h
      | Some ob \<Rightarrow> h\<lparr>objects := (objects h)(r \<mapsto> f ob)\<rparr>)"

definition mutate_cost :: "store \<Rightarrow> ref \<Rightarrow> (real list \<Rightarrow> real list) \<Rightarrow> store" where
  "mutate_cost h r g =
     (case objects h r of
        None \<Rightarrow> h
      | Some ob \<Rightarrow>
          (case lists h (cost ob) of
             None \<Rightarrow> h
           | Some xs \<Rightarrow> h\<lparr>lists := (lists h)(cost ob \<mapsto> g xs)\<rparr>))"

text \<open>\<^verbatim>\<open>obj.cost = [...]\<close>: a new list object is made and the field is pointed at it.\<close>

definition assign_cost :: "store \<Rightarrow> ref \<Rightarrow> real list \<Rightarrow> store" where
  "assign_cost h r xs =
     (case objects h r of
        None \<Rightarrow> h
      | Some ob \<Rightarrow>
          h\<lparr>objects := (objects h)(r \<mapsto> ob\<lparr>cost := fresh h\<rparr>),
            lists := (lists h)(fresh h \<mapsto> xs),
            fresh := Suc (fresh h)\<rparr>)"

text \<open>
  One mutation of an object: assigning to scalar fields (\<open>f\<close> is any change of the
  fields; the reference in \<open>cost\<close> is kept), assigning a new cost list, or changing the
  cost list in place. Pointing \<open>cost\<close> at a list another object already holds is a
  sharing the caller makes, and is not among them.
\<close>

datatype mutation =
  SetFields "ref cpd \<Rightarrow> ref cpd"
| SetCost "real list"
| ChangeCost "real list \<Rightarrow> real list"

fun mutate :: "store \<Rightarrow> ref \<Rightarrow> mutation \<Rightarrow> store" where
  "mutate h r (SetFields f) = assign h r (\<lambda>ob. (f ob)\<lparr>cost := cost ob\<rparr>)"
| "mutate h r (SetCost xs) = assign_cost h r xs"
| "mutate h r (ChangeCost g) = mutate_cost h r g"

text \<open>A sequence of mutations of the object at \<open>r\<close>, one after the other.\<close>

definition mutations :: "store \<Rightarrow> ref \<Rightarrow> mutation list \<Rightarrow> store" where
  "mutations h r mus = foldl (\<lambda>h' mu. mutate h' r mu) h mus"

text \<open>What a reader of the object at \<open>r\<close> sees: its fields, and the contents of its cost list.\<close>

definition view :: "store \<Rightarrow> ref \<Rightarrow> (ref cpd \<times> real list option) option" where
  "view h r =
     (case objects h r of
        None \<Rightarrow> None
      | Some ob \<Rightarrow> Some (ob, lists h (cost ob)))"

section \<open>Auxiliary notions\<close>

text \<open>Two objects of a store that share no cost list.\<close>

definition separate :: "store \<Rightarrow> ref \<Rightarrow> ref \<Rightarrow> bool" where
  "separate h a b =
     (a \<noteq> b \<and>
      (case (objects h a, objects h b) of
         (Some oa, Some ob) \<Rightarrow> cost oa \<noteq> cost ob \<and> cost oa < fresh h \<and> cost ob < fresh h
       | _ \<Rightarrow> False))"

text \<open>All matrices of a list have the column count of the first.\<close>

definition same_columns :: "'a ndarray list \<Rightarrow> bool" where
  "same_columns ms = list_all (\<lambda>m. shape m ! 1 = shape (hd ms) ! 1) ms"

text \<open>
  The Kronecker product of two vectors, by its index formula:
  \<open>(u \<otimes> v)[i * len v + j] = u[i] * v[j]\<close>.
\<close>

definition kron_vec :: "'a::times list \<Rightarrow> 'a list \<Rightarrow> 'a list" where
  "kron_vec u v =
     map (\<lambda>k. u ! (k div length v) * v ! (k mod length v)) [0..<length u * length v]"

text \<open>Two axis orders of length \<open>n\<close> that undo each other.\<close>

definition inverse_axes :: "nat \<Rightarrow> nat list \<Rightarrow> nat list \<Rightarrow> bool" where
  "inverse_axes n p q =
     (length p = n \<and> length q = n \<and>
      (\<forall>j<n. p ! j < n \<and> q ! j < n \<and> p ! (q ! j) = j \<and> q ! (p ! j) = j))"

section \<open>Indices and offsets\<close>

lemma offset_Cons: "offset (i # idx) (s # st) = i * s + offset idx st"
  by (simp add: offset_def)

lemma offset_Nil: "offset [] st = 0"
  by (simp add: offset_def)

lemma length_unravel_index: "length (unravel_index k sh) = length sh"
  by (induction sh arbitrary: k) simp_all

lemma length_c_strides: "length (c_strides sh) = length sh"
  by (induction sh) simp_all

lemma unravel_index_in_range:
  "k < prod_list sh \<Longrightarrow> list_all2 (<) (unravel_index k sh) sh"
proof (induction sh arbitrary: k)
  case Nil
  then show ?case by simp
next
  case (Cons d ds)
  from Cons.prems have pos: "0 < prod_list ds"
    by (cases "prod_list ds = 0") simp_all
  from Cons.prems have "k div prod_list ds < d"
    by (simp add: less_mult_imp_div_less)
  moreover have "list_all2 (<) (unravel_index (k mod prod_list ds) ds) ds"
    using pos by (intro Cons.IH) simp
  ultimately show ?case by simp
qed

lemma offset_unravel_index:
  "k < prod_list sh \<Longrightarrow> offset (unravel_index k sh) (c_strides sh) = k"
proof (induction sh arbitrary: k)
  case Nil
  then show ?case by (simp add: offset_Nil)
next
  case (Cons d ds)
  from Cons.prems have pos: "0 < prod_list ds"
    by (cases "prod_list ds = 0") simp_all
  then have "offset (unravel_index (k mod prod_list ds) ds) (c_strides ds) = k mod prod_list ds"
    by (intro Cons.IH) simp
  then show ?case by (simp add: offset_Cons)
qed

lemma offset_in_range:
  "list_all2 (<) idx sh \<Longrightarrow> offset idx (c_strides sh) < prod_list sh"
proof (induction idx sh rule: list_all2_induct)
  case Nil
  then show ?case by (simp add: offset_Nil)
next
  case (Cons i idx d ds)
  have "i * prod_list ds + offset idx (c_strides ds) < (i + 1) * prod_list ds"
    using Cons.IH by simp
  also have "\<dots> \<le> d * prod_list ds"
    using Cons.hyps(1) by (intro mult_le_mono1) simp
  finally show ?case by (simp add: offset_Cons)
qed

lemma unravel_index_offset:
  "list_all2 (<) idx sh \<Longrightarrow> unravel_index (offset idx (c_strides sh)) sh = idx"
proof (induction idx sh rule: list_all2_induct)
  case Nil
  then show ?case by simp
next
  case (Cons i idx d ds)
  have r: "offset idx (c_strides ds) < prod_list ds"
    using Cons.hyps(2) by (rule offset_in_range)
  then show ?case using Cons.IH by (simp add: offset_Cons)
qed

lemma offset_sum:
  "length idx = length st \<Longrightarrow> offset idx st = (\<Sum>j<length idx. idx ! j * st ! j)"
proof (induction idx st rule: list_induct2)
  case Nil
  then show ?case by (simp add: offset_Nil)
next
  case (Cons i idx s st)
  have "(\<Sum>j<Suc (length idx). (i # idx) ! j * (s # st) ! j)
      = i * s + (\<Sum>j<length idx. idx ! j * st ! j)"
    by (subst sum.lessThan_Suc_shift) simp
  with Cons show ?case
    by (simp only: offset_Cons list.size length_Cons) simp
qed

lemma sum_reindex_inverse:
  fixes f :: "nat \<Rightarrow> nat"
  assumes "\<And>j. j < n \<Longrightarrow> p ! j < n \<and> q ! j < n \<and> p ! (q ! j) = j \<and> q ! (p ! j) = j"
  shows "(\<Sum>i<n. f (p ! i)) = (\<Sum>j<n. f j)"
  by (rule sum.reindex_bij_witness [where i = "\<lambda>j. q ! j" and j = "\<lambda>i. p ! i"])
     (use assms in auto)

section \<open>Transposing by inverse axis orders\<close>

lemma shape_np_transpose: "shape (np_transpose a axes) = map (\<lambda>ax. shape a ! ax) axes"
  by (simp add: np_transpose_def Let_def)

lemma flat_np_transpose:
  "flat (np_transpose a axes) =
     map (\<lambda>k. flat a ! offset (unravel_index k (map (\<lambda>ax. shape a ! ax) axes))
                          (map (\<lambda>ax. c_strides (shape a) ! ax) axes))
         [0..<prod_list (map (\<lambda>ax. shape a ! ax) axes)]"
  by (simp add: np_transpose_def Let_def)

lemma np_transpose_inverse:
  assumes wf: "well_formed a"
    and inv: "inverse_axes (length (shape a)) p q"
  shows "np_transpose (np_transpose a p) q = a"
proof -
  define sh where "sh = shape a"
  define n where "n = length sh"
  define sh1 where "sh1 = map (\<lambda>ax. sh ! ax) p"
  have lp: "length p = n" and lq: "length q = n"
    and pq: "\<And>j. j < n \<Longrightarrow> p ! j < n \<and> q ! j < n \<and> p ! (q ! j) = j \<and> q ! (p ! j) = j"
    using inv by (auto simp: inverse_axes_def n_def sh_def)
  have qp: "\<And>j. j < n \<Longrightarrow> q ! j < n \<and> p ! j < n \<and> q ! (p ! j) = j \<and> p ! (q ! j) = j"
    using pq by blast
  have sh2: "map (\<lambda>ax. sh1 ! ax) q = sh"
    by (rule nth_equalityI) (use lp lq pq in \<open>auto simp: sh1_def n_def\<close>)
  have elem: "flat (np_transpose a p) ! offset (unravel_index k sh) (map (\<lambda>ax. c_strides sh1 ! ax) q)
      = flat a ! k" if k: "k < prod_list sh" for k
  proof -
    define i2 where "i2 = unravel_index k sh"
    define i1 where "i1 = map (\<lambda>i. i2 ! (p ! i)) [0..<n]"
    have li2: "length i2 = n" by (simp add: i2_def n_def length_unravel_index)
    have v2: "\<And>j. j < n \<Longrightarrow> i2 ! j < sh ! j"
      using unravel_index_in_range [OF k] by (simp add: i2_def list_all2_conv_all_nth n_def)
    have v1: "list_all2 (<) i1 sh1"
      using v2 pq lp by (simp add: list_all2_conv_all_nth i1_def sh1_def)
    have "offset i2 (map (\<lambda>ax. c_strides sh1 ! ax) q) = (\<Sum>j<n. i2 ! j * c_strides sh1 ! (q ! j))"
      using li2 lq by (simp add: offset_sum)
    also have "\<dots> = (\<Sum>j<n. i2 ! (p ! (q ! j)) * c_strides sh1 ! (q ! j))"
      using pq by simp
    also have "\<dots> = (\<Sum>i<n. i2 ! (p ! i) * c_strides sh1 ! i)"
      by (rule sum_reindex_inverse [where p = q and q = p]) (use qp in blast)
    also have "\<dots> = offset i1 (c_strides sh1)"
      using lp by (simp add: offset_sum i1_def length_c_strides sh1_def)
    finally have k1: "offset i2 (map (\<lambda>ax. c_strides sh1 ! ax) q) = offset i1 (c_strides sh1)" .
    have k1_lt: "offset i1 (c_strides sh1) < prod_list sh1"
      using v1 by (rule offset_in_range)
    have "offset i1 (map (\<lambda>ax. c_strides sh ! ax) p) = (\<Sum>i<n. i2 ! (p ! i) * c_strides sh ! (p ! i))"
      using lp by (simp add: offset_sum i1_def)
    also have "\<dots> = (\<Sum>j<n. i2 ! j * c_strides sh ! j)"
      by (rule sum_reindex_inverse [where q = q]) (use pq in blast)
    also have "\<dots> = offset i2 (c_strides sh)"
      using li2 by (simp add: offset_sum length_c_strides n_def)
    also have "\<dots> = k"
      unfolding i2_def using k by (rule offset_unravel_index)
    finally have ret: "offset i1 (map (\<lambda>ax. c_strides sh ! ax) p) = k" .
    have "flat (np_transpose a p) ! offset i1 (c_strides sh1)
        = flat a ! offset (unravel_index (offset i1 (c_strides sh1)) sh1) (map (\<lambda>ax. c_strides sh ! ax) p)"
      using k1_lt by (simp add: flat_np_transpose sh_def [symmetric] sh1_def [symmetric])
    also have "\<dots> = flat a ! k"
      using v1 ret by (simp add: unravel_index_offset)
    finally show ?thesis
      using k1 by (simp add: i2_def)
  qed
  have "flat (np_transpose (np_transpose a p) q) = map (\<lambda>k. flat a ! k) [0..<prod_list sh]"
    using elem
    by (simp add: flat_np_transpose [of "np_transpose a p"] shape_np_transpose
        sh_def [symmetric] sh1_def [symmetric] sh2)
  also have "\<dots> = flat a"
    using wf map_nth [of "flat a"] by (simp add: well_formed_def sh_def)
  finally have "flat (np_transpose (np_transpose a p) q) = flat a" .
  moreover have "shape (np_transpose (np_transpose a p) q) = shape a"
    using sh2 by (simp add: shape_np_transpose sh_def sh1_def)
  ultimately show ?thesis by simp
qed

section \<open>Moving one axis to the front and back\<close>

lemma upt_split_at: "m < n \<Longrightarrow> [0..<n] = [0..<m] @ m # [Suc m..<n]"
proof -
  assume m: "m < n"
  have "[0..<n] = [0..<m] @ [m..<n]"
    using m upt_add_eq_append [of 0 m "n - m"] by simp
  also have "[m..<n] = m # [Suc m..<n]"
    using m by (simp add: upt_conv_Cons)
  finally show ?thesis .
qed

lemma filter_neq_upt:
  "m < n \<Longrightarrow> filter (\<lambda>k. k \<noteq> m) [0..<n] = [0..<m] @ [Suc m..<n]"
proof -
  assume m: "m < n"
  have "filter (\<lambda>k. k \<noteq> m) [0..<m] = [0..<m]"
    by (rule filter_True) simp
  moreover have "filter (\<lambda>k. k \<noteq> m) [Suc m..<n] = [Suc m..<n]"
    by (rule filter_True) simp
  ultimately show ?thesis by (simp add: upt_split_at [OF m])
qed

lemma moveaxis_to_front:
  assumes "m < ndim a"
  shows "moveaxis a (int m) 0 = Inr (np_transpose a (m # [0..<m] @ [Suc m..<ndim a]))"
  using assms
  by (simp add: moveaxis_def normalize_axis_index_def normalize_index_def filter_neq_upt)

lemma moveaxis_from_front:
  assumes "m < ndim a"
  shows "moveaxis a 0 (int m) = Inr (np_transpose a ([Suc 0..<Suc m] @ 0 # [Suc m..<ndim a]))"
proof -
  have "filter (\<lambda>k. k \<noteq> 0) [0..<ndim a] = [Suc 0..<ndim a]"
    using assms filter_neq_upt [of 0 "ndim a"] by simp
  moreover have "take m [Suc 0..<ndim a] = [Suc 0..<Suc m]"
    using assms by (simp add: take_upt)
  moreover have "drop m [Suc 0..<ndim a] = [Suc m..<ndim a]"
    by (simp add: drop_upt)
  ultimately show ?thesis
    using assms by (simp add: moveaxis_def normalize_axis_index_def normalize_index_def)
qed

lemma nth_front_axes:
  assumes "m < n" "j < n"
  shows "(m # [0..<m] @ [Suc m..<n]) ! j = (if j = 0 then m else if j \<le> m then j - 1 else j)"
proof (cases j)
  case 0
  then show ?thesis by simp
next
  case (Suc i)
  then show ?thesis using assms by (auto simp: nth_append)
qed

lemma nth_back_axes:
  assumes "m < n" "j < n"
  shows "([Suc 0..<Suc m] @ 0 # [Suc m..<n]) ! j = (if j < m then Suc j else if j = m then 0 else j)"
proof -
  consider "j < m" | "j = m" | "m < j" by linarith
  then show ?thesis
  proof cases
    case 1
    then show ?thesis by (simp add: nth_append del: upt_Suc)
  next
    case 2
    then show ?thesis by (simp add: nth_append del: upt_Suc)
  next
    case 3
    then obtain i where "j = Suc (m + i)" using less_iff_Suc_add by auto
    then show ?thesis using assms by (simp add: nth_append del: upt_Suc)
  qed
qed

lemma inverse_axes_moveaxis:
  assumes m: "m < n"
  shows "inverse_axes n (m # [0..<m] @ [Suc m..<n]) ([Suc 0..<Suc m] @ 0 # [Suc m..<n])"
proof -
  have "length (m # [0..<m] @ [Suc m..<n]) = n" using m by simp
  moreover have "length ([Suc 0..<Suc m] @ 0 # [Suc m..<n]) = n"
    using m by (simp del: upt_Suc)
  moreover have "(m # [0..<m] @ [Suc m..<n]) ! j < n
      \<and> ([Suc 0..<Suc m] @ 0 # [Suc m..<n]) ! j < n
      \<and> (m # [0..<m] @ [Suc m..<n]) ! (([Suc 0..<Suc m] @ 0 # [Suc m..<n]) ! j) = j
      \<and> ([Suc 0..<Suc m] @ 0 # [Suc m..<n]) ! ((m # [0..<m] @ [Suc m..<n]) ! j) = j"
    if j: "j < n" for j
  proof -
    have f: "(m # [0..<m] @ [Suc m..<n]) ! j < n"
      using m j by (simp only: nth_front_axes) auto
    have b: "([Suc 0..<Suc m] @ 0 # [Suc m..<n]) ! j < n"
      using m j by (simp only: nth_back_axes) auto
    have fb: "(m # [0..<m] @ [Suc m..<n]) ! (([Suc 0..<Suc m] @ 0 # [Suc m..<n]) ! j) = j"
      using m j b by (simp only: nth_front_axes) (simp only: nth_back_axes, auto)
    have bf: "([Suc 0..<Suc m] @ 0 # [Suc m..<n]) ! ((m # [0..<m] @ [Suc m..<n]) ! j) = j"
      using m j f by (simp only: nth_back_axes) (simp only: nth_front_axes, auto)
    from f b fb bf show ?thesis by blast
  qed
  ultimately show ?thesis unfolding inverse_axes_def by blast
qed

lemma map_nth_upt_take: "m \<le> length sh \<Longrightarrow> map (\<lambda>ax. sh ! ax) [0..<m] = take m sh"
  by (rule nth_equalityI) simp_all

lemma map_nth_upt_drop: "map (\<lambda>ax. sh ! ax) [m..<length sh] = drop m sh"
  by (rule nth_equalityI) simp_all

lemma map_nth_remove:
  assumes "m < length sh"
  shows "map (\<lambda>ax. sh ! ax) ([0..<m] @ [Suc m..<length sh]) = take m sh @ drop (Suc m) sh"
  using assms by (simp add: map_nth_upt_take map_nth_upt_drop)

lemma prod_list_int: "nat (prod_list (map int xs)) = prod_list xs"
  by (induction xs) (simp_all add: nat_mult_distrib)

lemma filter_nonneg_int: "filter (\<lambda>d. 0 \<le> d) (map int xs) = map int xs"
  by (induction xs) simp_all

lemma filter_neg_int: "filter (\<lambda>d. d < 0) (map int xs) = []"
  by (induction xs) simp_all

lemma reshape_full:
  "prod_list (shape a) = prod_list shp \<Longrightarrow>
     reshape a (map int shp) = Inr \<lparr>shape = shp, flat = flat a\<rparr>"
  by (simp add: reshape_def filter_nonneg_int filter_neg_int prod_list_int comp_def)

lemma reshape_infer:
  "d \<noteq> 0 \<Longrightarrow> prod_list (shape a) = d * r \<Longrightarrow>
     reshape a [int d, - 1] = Inr \<lparr>shape = [d, r], flat = flat a\<rparr>"
  by (simp add: reshape_def)

lemma unfold_ok:
  assumes m: "m < ndim tensor" and nz: "shape tensor ! m \<noteq> 0"
  shows "unfold tensor (int m) =
     Inr \<lparr>shape = [shape tensor ! m, prod_list (take m (shape tensor) @ drop (Suc m) (shape tensor))],
          flat = flat (np_transpose tensor (m # [0..<m] @ [Suc m..<ndim tensor]))\<rparr>"
proof -
  let ?moved = "np_transpose tensor (m # [0..<m] @ [Suc m..<ndim tensor])"
  have sh: "shape ?moved = shape tensor ! m # take m (shape tensor) @ drop (Suc m) (shape tensor)"
    using m map_nth_remove [of m "shape tensor"] by (simp add: shape_np_transpose ndim_def)
  have "reshape ?moved [int (shape tensor ! m), - 1] =
      Inr \<lparr>shape = [shape tensor ! m, prod_list (take m (shape tensor) @ drop (Suc m) (shape tensor))],
           flat = flat ?moved\<rparr>"
    using nz by (intro reshape_infer) (simp_all add: sh)
  then show ?thesis
    using m by (simp add: unfold_def moveaxis_to_front normalize_index_def ndim_def)
qed

section \<open>Round trip of unfolding and folding\<close>

text \<open>
  Claim C3, as amended. For every well-formed tensor \<open>T\<close> of \<open>N\<close> dimensions and every
  mode \<open>m\<close> with \<open>0 \<le> m < N\<close> whose dimension \<open>T.shape[m]\<close> is not zero, \<open>unfold(T, m)\<close>
  succeeds with the shape \<open>(shape[m], product of the remaining dimensions)\<close>, and
  \<open>fold(unfold(T, m), m, T.shape)\<close> returns \<open>T\<close> itself, shape and elements.
\<close>

theorem fold_unfold_round_trip:
  assumes wf: "well_formed tensor"
    and m0: "0 \<le> mode" and m1: "mode < int (ndim tensor)"
    and nz: "shape tensor ! nat mode \<noteq> 0"
  shows "\<exists>u. unfold tensor mode = Inr u
      \<and> shape u = [shape tensor ! nat mode,
                    prod_list (take (nat mode) (shape tensor) @ drop (Suc (nat mode)) (shape tensor))]
      \<and> fold_nd u mode (shape tensor) = Inr tensor"
proof -
  define m where "m = nat mode"
  define sh where "sh = shape tensor"
  have mode: "mode = int m" and m: "m < ndim tensor" and ml: "m < length sh"
    using m0 m1 by (simp_all add: m_def sh_def ndim_def)
  let ?p = "m # [0..<m] @ [Suc m..<ndim tensor]"
  let ?q = "[Suc 0..<Suc m] @ 0 # [Suc m..<ndim tensor]"
  let ?rest = "take m sh @ drop (Suc m) sh"
  let ?u = "\<lparr>shape = [sh ! m, prod_list ?rest], flat = flat (np_transpose tensor ?p)\<rparr>"
  have nz': "shape tensor ! m \<noteq> 0"
    using nz by (simp add: m_def)
  have u: "unfold tensor mode = Inr ?u"
    unfolding mode sh_def by (rule unfold_ok [OF m nz'])
  have shp: "shape (np_transpose tensor ?p) = sh ! m # ?rest"
    using m map_nth_remove [of m sh] by (simp add: shape_np_transpose ndim_def sh_def)
  have pop: "pop sh mode = Inr (sh ! m, ?rest)"
    using ml by (simp add: pop_def normalize_index_def mode)
  have "reshape ?u (map int (sh ! m # ?rest)) = Inr \<lparr>shape = sh ! m # ?rest, flat = flat ?u\<rparr>"
    by (rule reshape_full) simp
  also have "\<lparr>shape = sh ! m # ?rest, flat = flat ?u\<rparr> = np_transpose tensor ?p"
    using shp by simp
  finally have re: "reshape ?u (map int (sh ! m # ?rest)) = Inr (np_transpose tensor ?p)" .
  have nd: "ndim (np_transpose tensor ?p) = ndim tensor"
    using m by (simp add: ndim_def shape_np_transpose)
  have mv: "moveaxis (np_transpose tensor ?p) 0 mode = Inr (np_transpose (np_transpose tensor ?p) ?q)"
    using moveaxis_from_front [of m "np_transpose tensor ?p"] m by (simp add: nd mode)
  have "np_transpose (np_transpose tensor ?p) ?q = tensor"
    using wf inverse_axes_moveaxis [OF m] by (intro np_transpose_inverse) (simp_all add: ndim_def)
  with pop re mv have f: "fold_nd ?u mode sh = Inr tensor"
    by (simp add: fold_nd_def)
  have "shape ?u = [sh ! m, prod_list ?rest]"
    by simp
  with u f show ?thesis
    unfolding sh_def m_def by blast
qed

theorem fold_unfold_round_trip_witness:
  "well_formed \<lparr>shape = [2, 3], flat = [1, 2, 3, 4, 5, 6 :: int]\<rparr>
   \<and> (0 :: int) \<le> 1 \<and> 1 < int (ndim \<lparr>shape = [2, 3], flat = [1, 2, 3, 4, 5, 6 :: int]\<rparr>)
   \<and> shape \<lparr>shape = [2, 3], flat = [1, 2, 3, 4, 5, 6 :: int]\<rparr> ! nat 1 \<noteq> 0
   \<and> unfold \<lparr>shape = [2, 3], flat = [1, 2, 3, 4, 5, 6 :: int]\<rparr> 1
       = Inr \<lparr>shape = [3, 2], flat = [1, 4, 2, 5, 3, 6]\<rparr>
   \<and> fold_nd \<lparr>shape = [3, 2], flat = [1, 4, 2, 5, 3, 6 :: int]\<rparr> 1 [2, 3]
       = Inr \<lparr>shape = [2, 3], flat = [1, 2, 3, 4, 5, 6]\<rparr>"
proof -
  have u: "unfold \<lparr>shape = [2, 3], flat = [1, 2, 3, 4, 5, 6 :: int]\<rparr> 1
       = Inr \<lparr>shape = [3, 2], flat = [1, 4, 2, 5, 3, 6]\<rparr>"
    by code_simp
  show ?thesis
    using u fold_unfold_round_trip [of "\<lparr>shape = [2, 3], flat = [1, 2, 3, 4, 5, 6 :: int]\<rparr>" 1]
    by (simp add: well_formed_def ndim_def)
qed

text \<open>
  The claim as stated fails on a tensor whose unfolded mode has dimension zero: numpy
  cannot infer the \<open>-1\<close> of \<open>(0, -1)\<close>, and \<open>unfold\<close> raises a ValueError, so there is
  nothing to fold.
\<close>

theorem fold_unfold_empty_mode_counterexample:
  "well_formed \<lparr>shape = [0, 3], flat = [] :: int list\<rparr>
   \<and> 0 < ndim \<lparr>shape = [0, 3], flat = [] :: int list\<rparr>
   \<and> unfold \<lparr>shape = [0, 3], flat = [] :: int list\<rparr> 0 = Inl ValueError"
  by (simp add: well_formed_def ndim_def unfold_def moveaxis_def
      normalize_axis_index_def normalize_index_def np_transpose_def reshape_def)

section \<open>The convergence property\<close>

text \<open>
  Claim C2. For every cost history and \<open>tol\<close>, \<open>converged\<close> is false when the cost has
  fewer than two entries, and otherwise is true if and only if the absolute difference
  between the last two cost entries is less than \<open>tol\<close>; the entries before the last two
  do not affect the result.
\<close>

theorem converged_last_two:
  "(length (cost self) < 2 \<longrightarrow> \<not> converged self)
   \<and> (2 \<le> length (cost self) \<longrightarrow>
        converged self = (\<bar>last (cost self) - last (butlast (cost self))\<bar> < tol self))
   \<and> converged (self\<lparr>cost := earlier @ [c2, c1]\<rparr>) = (\<bar>c1 - c2\<bar> < tol self)"
proof (intro conjI impI)
  assume "length (cost self) < 2"
  then show "\<not> converged self" by (simp add: converged_def)
next
  assume len: "2 \<le> length (cost self)"
  then have ne: "cost self \<noteq> []" and ne': "butlast (cost self) \<noteq> []"
    by (auto simp: butlast_conv_take)
  have "last (cost self) = cost self ! (length (cost self) - 1)"
    using ne by (simp add: last_conv_nth)
  moreover have "last (butlast (cost self)) = cost self ! (length (cost self) - 2)"
    using ne' len by (simp add: last_conv_nth nth_butlast numeral_2_eq_2)
  ultimately show "converged self = (\<bar>last (cost self) - last (butlast (cost self))\<bar> < tol self)"
    using len by (simp add: converged_def)
next
  show "converged (self\<lparr>cost := earlier @ [c2, c1]\<rparr>) = (\<bar>c1 - c2\<bar> < tol self)"
    by (simp add: converged_def nth_append)
qed

theorem converged_last_two_witness:
  "length (cost \<lparr>init = ''svd'', max_iter = 50, epsilon = 0.01, tol = 0.01, random_state = None,
      mode_description = ''mode_description'', verbose = False, cost = [0.001 :: real]\<rparr>) < 2
   \<and> \<not> converged \<lparr>init = ''svd'', max_iter = 50, epsilon = 0.01, tol = 0.01, random_state = None,
      mode_description = ''mode_description'', verbose = False, cost = [0.001]\<rparr>
   \<and> 2 \<le> length (cost \<lparr>init = ''svd'', max_iter = 50, epsilon = 0.01, tol = 0.01, random_state = None,
      mode_description = ''mode_description'', verbose = False, cost = [0.1, 0.2, 0.001, 0.0001 :: real]\<rparr>)
   \<and> converged \<lparr>init = ''svd'', max_iter = 50, epsilon = 0.01, tol = 0.01, random_state = None,
      mode_description = ''mode_description'', verbose = False, cost = [0.1, 0.2, 0.001, 0.0001]\<rparr>
   \<and> \<not> converged \<lparr>init = ''svd'', max_iter = 50, epsilon = 0.01, tol = 0.01, random_state = None,
      mode_description = ''mode_description'', verbose = False, cost = [0.0001, 0.0002, 0.1, 0.2]\<rparr>"
  using converged_last_two [of "\<lparr>init = ''svd'', max_iter = 50, epsilon = 0.01, tol = 0.01,
      random_state = None, mode_description = ''mode_description'', verbose = False,
      cost = [0.001]\<rparr>" "[0.0001, 0.0002]" "0.1" "0.2"]
    converged_last_two [of "\<lparr>init = ''svd'', max_iter = 50, epsilon = 0.01, tol = 0.01,
      random_state = None, mode_description = ''mode_description'', verbose = False,
      cost = [0.1, 0.2, 0.001, 0.0001]\<rparr>" "[]" "0" "0"]
  by simp

section \<open>Copying a decomposition object\<close>

lemma separate_sym: "separate h a b = separate h b a"
  by (auto simp: separate_def split: option.splits)

lemma mutate_separate:
  assumes "separate h a b"
  shows "separate (mutate h a mu) a b \<and> view (mutate h a mu) b = view h b"
proof -
  from assms obtain oa ob where
    ne: "a \<noteq> b" and oa: "objects h a = Some oa" and ob: "objects h b = Some ob"
    and c: "cost oa \<noteq> cost ob" "cost oa < fresh h" "cost ob < fresh h"
    by (auto simp: separate_def split: option.splits)
  show ?thesis
  proof (cases mu)
    case (SetFields f)
    then show ?thesis
      using ne oa ob c by (simp add: separate_def assign_def view_def)
  next
    case (SetCost xs)
    then show ?thesis
      using ne oa ob c by (simp add: separate_def assign_cost_def view_def)
  next
    case (ChangeCost g)
    then show ?thesis
      using ne oa ob c
      by (cases "lists h (cost oa)") (simp_all add: separate_def mutate_cost_def view_def)
  qed
qed

lemma mutations_separate:
  "separate h a b \<Longrightarrow>
     separate (mutations h a mus) a b \<and> view (mutations h a mus) b = view h b"
proof (induction mus arbitrary: h)
  case Nil
  then show ?case by (simp add: mutations_def)
next
  case (Cons mu mus)
  from mutate_separate [OF Cons.prems, of mu]
  have s: "separate (mutate h a mu) a b" and v: "view (mutate h a mu) b = view h b"
    by simp_all
  from Cons.IH [OF s] v show ?case
    by (simp add: mutations_def)
qed

text \<open>
  Claim C9. \<open>copy()\<close> returns a clone distinct from the original in which every scalar
  configuration field has the value it has in the original and whose cost is an empty
  sequence, and no mutable state is shared: after the copy, no sequence of mutations of
  the original (assigning to its fields, assigning it a new cost list, changing its cost
  list in place) changes what the clone shows, and the same with the two exchanged.
\<close>

theorem copy_independent:
  assumes ok: "store_ok h" and ob: "objects h self = Some ob"
  shows "\<exists>clone h' ob'.
      copy h self = Some (clone, h') \<and> clone \<noteq> self
      \<and> store_ok h' \<and> view h' self = view h self
      \<and> objects h' clone = Some ob'
      \<and> init ob' = init ob \<and> max_iter ob' = max_iter ob \<and> epsilon ob' = epsilon ob
      \<and> tol ob' = tol ob \<and> random_state ob' = random_state ob
      \<and> mode_description ob' = mode_description ob \<and> verbose ob' = verbose ob
      \<and> cost ob' \<noteq> cost ob \<and> lists h' (cost ob') = Some []
      \<and> (\<forall>mus. view (mutations h' self mus) clone = view h' clone)
      \<and> (\<forall>mus. view (mutations h' clone mus) self = view h' self)"
proof -
  define clone where "clone = Suc (fresh h)"
  define ob' where "ob' = ob\<lparr>cost := fresh h\<rparr>"
  define h' where "h' = h\<lparr>objects := (objects h)(clone \<mapsto> ob'),
      lists := (lists h)(fresh h \<mapsto> []), fresh := Suc (Suc (fresh h))\<rparr>"
  have lt: "self < fresh h" "cost ob < fresh h"
    using ok ob by (auto simp: store_ok_def)
  have ne: "clone \<noteq> self" using lt by (simp add: clone_def)
  have c: "copy h self = Some (clone, h')"
    using ob by (simp add: copy_def h'_def clone_def ob'_def Let_def)
  have o_self: "objects h' self = Some ob" and o_clone: "objects h' clone = Some ob'"
    using ne ob by (simp_all add: h'_def)
  have ok': "store_ok h'"
    using ok lt unfolding store_ok_def h'_def clone_def ob'_def
    by (auto simp: less_Suc_eq split: if_splits)
  have v: "view h' self = view h self"
    using ne ob lt by (simp add: view_def h'_def)
  have ne_cost: "cost ob' \<noteq> cost ob" using lt by (simp add: ob'_def)
  have sep: "separate h' self clone"
    using ne o_self o_clone lt by (simp add: separate_def) (simp add: h'_def ob'_def)
  have m1: "view (mutations h' self mus) clone = view h' clone" for mus
    using mutations_separate [OF sep] by simp
  have m2: "view (mutations h' clone mus) self = view h' self" for mus
    using mutations_separate [OF sep [unfolded separate_sym [of h' self clone]]] by simp
  have fields: "init ob' = init ob \<and> max_iter ob' = max_iter ob \<and> epsilon ob' = epsilon ob
      \<and> tol ob' = tol ob \<and> random_state ob' = random_state ob
      \<and> mode_description ob' = mode_description ob \<and> verbose ob' = verbose ob"
    by (simp add: ob'_def)
  have empty: "lists h' (cost ob') = Some []"
    by (simp add: h'_def ob'_def)
  show ?thesis
    using c ne ok' v o_clone fields ne_cost empty m1 m2
    by (intro exI [of _ clone] exI [of _ h'] exI [of _ ob']) blast
qed

theorem copy_independent_witness:
  "store_ok \<lparr>objects = [1 \<mapsto> \<lparr>init = ''svd'', max_iter = 50, epsilon = 0.01, tol = 0.0001,
                 random_state = None, mode_description = ''mode_cpd'', verbose = False,
                 cost = 0\<rparr>],
             lists = [0 \<mapsto> [1, 2]], fresh = 2\<rparr>
   \<and> copy \<lparr>objects = [1 \<mapsto> \<lparr>init = ''svd'', max_iter = 50, epsilon = 0.01, tol = 0.0001,
                 random_state = None, mode_description = ''mode_cpd'', verbose = False,
                 cost = 0\<rparr>],
             lists = [0 \<mapsto> [1, 2]], fresh = 2\<rparr> 1
       = Some (3, \<lparr>objects = [1 \<mapsto> \<lparr>init = ''svd'', max_iter = 50, epsilon = 0.01, tol = 0.0001,
                 random_state = None, mode_description = ''mode_cpd'', verbose = False,
                 cost = 0\<rparr>,
                 3 \<mapsto> \<lparr>init = ''svd'', max_iter = 50, epsilon = 0.01, tol = 0.0001,
                 random_state = None, mode_description = ''mode_cpd'', verbose = False,
                 cost = 2\<rparr>],
             lists = [0 \<mapsto> [1, 2], 2 \<mapsto> []], fresh = 4\<rparr>)"
  using copy_independent [of "\<lparr>objects = [1 \<mapsto> \<lparr>init = ''svd'', max_iter = 50, epsilon = 0.01,
                 tol = 0.0001, random_state = None, mode_description = ''mode_cpd'',
                 verbose = False, cost = 0\<rparr>],
             lists = [0 \<mapsto> [1, 2]], fresh = 2\<rparr>" 1]
  by (simp add: store_ok_def copy_def eval_nat_numeral)

section \<open>Products of a single matrix\<close>

text \<open>
  Claim C10. \<open>hadamard\<close> and \<open>kronecker\<close> check no minimum count: on a list of one matrix
  both succeed and return that matrix unchanged, whereas \<open>khatri_rao\<close> raises a
  ValueError.
\<close>

theorem single_matrix_products:
  "hadamard [m] None False = Inr m \<and> kronecker [m] None False = Inr m
   \<and> khatri_rao astype [m] None False = Inl ValueError"
  by (simp add: hadamard_def kronecker_def khatri_rao_def skip_reverse_def skip_filter_def
      reduce_def)

section \<open>Skipping and reversing\<close>

lemma skip_filter_in_range:
  assumes "k < length ms"
  shows "skip_filter ms (Some (int k)) = take k ms @ drop (Suc k) ms"
proof -
  have "filter (\<lambda>i. int i \<noteq> int k) [0..<length ms] = [0..<k] @ [Suc k..<length ms]"
    using filter_neq_upt [OF assms] by simp
  then show ?thesis
    using assms by (simp add: skip_filter_def map_nth_upt_take map_nth_upt_drop)
qed

lemma skip_filter_out_of_range:
  assumes "k < 0 \<or> int (length ms) \<le> k"
  shows "skip_filter ms (Some k) = ms"
proof -
  have "filter (\<lambda>i. int i \<noteq> k) [0..<length ms] = [0..<length ms]"
    using assms by (intro filter_True) auto
  then show ?thesis by (simp add: skip_filter_def map_nth)
qed

lemma skip_reverse_None: "skip_reverse ms None False = ms"
  by (simp add: skip_reverse_def skip_filter_def)

lemma skip_reverse_rev: "skip_reverse ms None True = rev ms"
  by (simp add: skip_reverse_def skip_filter_def)

lemma skip_filter_nat: "skip_filter ms (Some (int k)) = take k ms @ drop (Suc k) ms"
proof (cases "k < length ms")
  case True
  then show ?thesis by (rule skip_filter_in_range)
next
  case False
  then show ?thesis by (simp add: skip_filter_out_of_range)
qed

lemma skip_reverse_skip_nat:
  "skip_reverse ms (Some (int k)) False = take k ms @ drop (Suc k) ms"
  by (simp add: skip_reverse_def skip_filter_nat)

lemma skip_reverse_both_nat:
  "skip_reverse ms (Some (int k)) True = rev (take k ms @ drop (Suc k) ms)"
  by (simp add: skip_reverse_def skip_filter_nat)

text \<open>
  Claim C5, as amended. For \<open>hadamard\<close> and \<open>kronecker\<close>, and for \<open>khatri_rao\<close> unless
  the list has exactly 2 matrices and \<open>k\<close> is the index of one of them: calling with
  \<open>skip_matrix=k\<close>, \<open>k \<ge> 0\<close>, returns what the call on the list with the element at index
  \<open>k\<close> removed returns (results and exceptions alike; an index past the end removes
  nothing), and when both arguments are given, \<open>reverse\<close> is applied to the list already
  filtered (skip, then reverse). For all three, calling with \<open>reverse=True\<close> returns what
  the call on the reversed list returns.
\<close>

theorem skip_and_reverse_products:
  "hadamard ms (Some (int k)) False = hadamard (take k ms @ drop (Suc k) ms) None False
    \<and> hadamard ms None True = hadamard (rev ms) None False
    \<and> hadamard ms (Some (int k)) True = hadamard (rev (take k ms @ drop (Suc k) ms)) None False
    \<and> kronecker ms (Some (int k)) False = kronecker (take k ms @ drop (Suc k) ms) None False
    \<and> kronecker ms None True = kronecker (rev ms) None False
    \<and> kronecker ms (Some (int k)) True = kronecker (rev (take k ms @ drop (Suc k) ms)) None False
    \<and> khatri_rao astype ms None True = khatri_rao astype (rev ms) None False
    \<and> (\<not> (length ms = 2 \<and> k < 2) \<longrightarrow>
         khatri_rao astype ms (Some (int k)) False = khatri_rao astype (take k ms @ drop (Suc k) ms) None False
         \<and> khatri_rao astype ms (Some (int k)) True
             = khatri_rao astype (rev (take k ms @ drop (Suc k) ms)) None False)"
proof -
  have h: "hadamard ms (Some (int k)) False = hadamard (take k ms @ drop (Suc k) ms) None False
    \<and> hadamard ms None True = hadamard (rev ms) None False
    \<and> hadamard ms (Some (int k)) True = hadamard (rev (take k ms @ drop (Suc k) ms)) None False"
    by (simp add: hadamard_def skip_reverse_None skip_reverse_rev skip_reverse_skip_nat
        skip_reverse_both_nat)
  have kr: "kronecker ms (Some (int k)) False = kronecker (take k ms @ drop (Suc k) ms) None False
    \<and> kronecker ms None True = kronecker (rev ms) None False
    \<and> kronecker ms (Some (int k)) True = kronecker (rev (take k ms @ drop (Suc k) ms)) None False"
    by (simp add: kronecker_def skip_reverse_None skip_reverse_rev skip_reverse_skip_nat
        skip_reverse_both_nat)
  have r: "khatri_rao astype ms None True = khatri_rao astype (rev ms) None False"
    by (simp add: khatri_rao_def skip_reverse_None skip_reverse_rev)
  have s: "khatri_rao astype ms (Some (int k)) False = khatri_rao astype (take k ms @ drop (Suc k) ms) None False
      \<and> khatri_rao astype ms (Some (int k)) True
             = khatri_rao astype (rev (take k ms @ drop (Suc k) ms)) None False"
    if "\<not> (length ms = 2 \<and> k < 2)"
  proof -
    have "(length ms < 2) = (length (take k ms @ drop (Suc k) ms) < 2)"
      using that by (cases "k < length ms") auto
    moreover have "length (rev (take k ms @ drop (Suc k) ms)) = length (take k ms @ drop (Suc k) ms)"
      by simp
    ultimately show ?thesis
      unfolding khatri_rao_def
      by (simp only: skip_reverse_None skip_reverse_skip_nat skip_reverse_both_nat)
  qed
  from h kr r s show ?thesis by blast
qed

theorem skip_and_reverse_products_witness:
  "\<not> (length [\<lparr>shape = [1, 2], flat = [1, 2 :: real]\<rparr>,
               \<lparr>shape = [1, 2], flat = [3, 4]\<rparr>,
               \<lparr>shape = [1, 2], flat = [5, 6]\<rparr>] = 2 \<and> (1 :: nat) < 2)
   \<and> khatri_rao id [\<lparr>shape = [1, 2], flat = [1, 2 :: real]\<rparr>,
                  \<lparr>shape = [1, 2], flat = [3, 4]\<rparr>,
                  \<lparr>shape = [1, 2], flat = [5, 6]\<rparr>] (Some (int 1)) False
       = khatri_rao id [\<lparr>shape = [1, 2], flat = [1, 2]\<rparr>, \<lparr>shape = [1, 2], flat = [5, 6]\<rparr>] None False
   \<and> hadamard [\<lparr>shape = [1, 2], flat = [1, 2 :: real]\<rparr>,
                \<lparr>shape = [1, 2], flat = [3, 4]\<rparr>,
                \<lparr>shape = [1, 2], flat = [5, 6]\<rparr>] (Some (int 1)) True
       = hadamard [\<lparr>shape = [1, 2], flat = [5, 6]\<rparr>, \<lparr>shape = [1, 2], flat = [1, 2]\<rparr>] None False"
  using skip_and_reverse_products [where ms = "[\<lparr>shape = [1, 2], flat = [1, 2 :: real]\<rparr>,
                        \<lparr>shape = [1, 2], flat = [3, 4]\<rparr>,
                        \<lparr>shape = [1, 2], flat = [5, 6]\<rparr>]" and k = 1 and astype = id]
  by simp

text \<open>
  The claim as stated fails for \<open>khatri_rao\<close> on 2 matrices: the count is checked before
  the skip, so the call with \<open>skip_matrix\<close> returns the matrix left, and the call on the
  list with that index removed raises a ValueError.
\<close>

theorem khatri_rao_skip_pair_counterexample:
  "khatri_rao id [\<lparr>shape = [1, 2], flat = [1, 2 :: real]\<rparr>, \<lparr>shape = [1, 2], flat = [3, 4]\<rparr>]
      (Some 0) False
     = Inr \<lparr>shape = [1, 2], flat = [3, 4 :: real]\<rparr>
   \<and> khatri_rao id [\<lparr>shape = [1, 2], flat = [3, 4 :: real]\<rparr>] None False = Inl ValueError"
  by code_simp

section \<open>The Khatri-Rao product\<close>

lemma two_dim_shape: "ndim m = 2 \<Longrightarrow> \<exists>r c. shape m = [r, c]"
proof -
  assume "ndim m = 2"
  then have "length (shape m) = Suc (Suc 0)" by (simp add: ndim_def)
  then show ?thesis by (auto simp: length_Suc_conv)
qed

lemma kr_rows_2d:
  assumes "list_all (\<lambda>m. ndim m = 2) rest"
  shows "kr_rows n c rest =
     (if list_all (\<lambda>m. shape m ! 1 = c) rest
      then Inr (n * prod_list (map (\<lambda>m. shape m ! 0) rest)) else Inl ValueError)"
  using assms
proof (induction rest arbitrary: n)
  case Nil
  then show ?case by simp
next
  case (Cons m rest)
  then obtain r c' where sh: "shape m = [r, c']"
    using two_dim_shape [of m] by auto
  from Cons show ?case
    by (simp add: sh mult.assoc)
qed

lemma kron_vec_Nil: "kron_vec [] v = []"
  by (simp add: kron_vec_def)

lemma kron_vec_Cons: "kron_vec (x # u) v = map (\<lambda>y. x * y) v @ kron_vec u v"
proof (rule nth_equalityI)
  show "length (kron_vec (x # u) v) = length (map (\<lambda>y. x * y) v @ kron_vec u v)"
    by (simp add: kron_vec_def)
next
  fix k assume "k < length (kron_vec (x # u) v)"
  then have k: "k < length v + length u * length v"
    by (simp add: kron_vec_def)
  have lhs: "kron_vec (x # u) v ! k = (x # u) ! (k div length v) * v ! (k mod length v)"
    using k unfolding kron_vec_def by (subst nth_map) simp_all
  show "kron_vec (x # u) v ! k = (map (\<lambda>y. x * y) v @ kron_vec u v) ! k"
  proof (cases "k < length v")
    case True
    then show ?thesis
      unfolding lhs by (simp add: nth_append)
  next
    case False
    then have ge: "length v \<le> k" by simp
    have pos: "0 < length v"
      using k False by (cases "length v = 0") simp_all
    have d: "k div length v = Suc ((k - length v) div length v)"
      using ge pos by (simp add: le_div_geq)
    have m: "k mod length v = (k - length v) mod length v"
      using ge by (simp add: le_mod_geq)
    have k': "k - length v < length u * length v"
      using k ge by simp
    have "kron_vec u v ! (k - length v)
        = u ! ((k - length v) div length v) * v ! ((k - length v) mod length v)"
      using k' unfolding kron_vec_def by (subst nth_map) simp_all
    then show ?thesis
      unfolding lhs using False by (simp add: nth_append d m)
  qed
qed

lemma ravel_einsum_outer: "ravel (einsum_outer u v) = kron_vec u v"
  by (induction u) (simp_all add: ravel_def einsum_outer_def kron_vec_Nil kron_vec_Cons)

lemma kr_column_2d:
  assumes "list_all (\<lambda>m. ndim m = 2) rest"
  shows "kr_column temp i rest = Inr (foldl kron_vec temp (map (\<lambda>m. column m i) rest))"
  using assms
  by (induction rest arbitrary: temp) (simp_all add: ravel_einsum_outer)

lemma kr_fill_2d:
  assumes "list_all (\<lambda>m. ndim m = 2) rest"
  shows "kr_fill astype first rest cols result =
     Inr (foldl (\<lambda>res i. set_column astype res i
            (foldl kron_vec (column first i) (map (\<lambda>m. column m i) rest))) result cols)"
  using assms
  by (induction cols arbitrary: result) (simp_all add: kr_column_2d)

lemma set_skip_filter: "set (skip_filter ms skip) \<subseteq> set ms"
  by (cases skip) (auto simp: skip_filter_def)

lemma set_skip_reverse: "set (skip_reverse ms skip rv) \<subseteq> set ms"
  using set_skip_filter [of ms skip] by (simp add: skip_reverse_def Let_def)

lemma length_skip_filter: "length ms - 1 \<le> length (skip_filter ms skip)"
proof (cases skip)
  case None
  then show ?thesis by (simp add: skip_filter_def)
next
  case (Some k)
  show ?thesis
  proof (cases "k < 0 \<or> int (length ms) \<le> k")
    case True
    then show ?thesis by (simp add: Some skip_filter_out_of_range)
  next
    case False
    then have "nat k < length ms" and "k = int (nat k)" by linarith+
    then show ?thesis
      using skip_filter_in_range [of "nat k" ms] by (simp add: Some)
  qed
qed

lemma skip_reverse_nonempty: "2 \<le> length ms \<Longrightarrow> skip_reverse ms skip rv \<noteq> []"
proof -
  assume "2 \<le> length ms"
  then have "0 < length (skip_filter ms skip)"
    using length_skip_filter [of ms skip] by linarith
  then show ?thesis by (simp add: skip_reverse_def Let_def)
qed

lemma khatri_rao_2d:
  assumes two: "list_all (\<lambda>m. ndim m = 2) ms" and len: "2 \<le> length ms"
    and sel: "skip_reverse ms skip rv = first # rest"
  shows "khatri_rao astype ms skip rv =
     (if same_columns (first # rest)
      then Inr (foldl (\<lambda>res i. set_column astype res i
                  (foldl kron_vec (column first i) (map (\<lambda>m. column m i) rest)))
                (zeros [prod_list (map (\<lambda>m. shape m ! 0) (first # rest)), shape first ! 1])
                [0..<shape first ! 1])
      else Inl ValueError)"
proof -
  have sub: "set (first # rest) \<subseteq> set ms"
    using set_skip_reverse [of ms skip rv] by (simp add: sel)
  then have r2: "list_all (\<lambda>m. ndim m = 2) rest" and f2: "ndim first = 2"
    using two by (auto simp: list_all_iff)
  obtain r c where sh: "shape first = [r, c]"
    using two_dim_shape [OF f2] by blast
  have sc: "same_columns (first # rest) = list_all (\<lambda>m. shape m ! 1 = c) rest"
    by (simp add: same_columns_def sh)
  show ?thesis
    using len by (simp add: khatri_rao_def sel sh kr_rows_2d [OF r2] kr_fill_2d [OF r2] sc)
qed

lemma same_columns_single: "same_columns [m]"
  by (simp add: same_columns_def)

lemma skip_reverse_pair:
  assumes "length ms = 2" "k < 2"
  shows "\<exists>m. skip_reverse ms (Some (int k)) rv = [m]"
proof -
  have "length (take k ms @ drop (Suc k) ms) = 1"
    using assms by auto
  then obtain m where "take k ms @ drop (Suc k) ms = [m]"
    by (metis One_nat_def length_0_conv length_Suc_conv)
  then show ?thesis
    by (simp add: skip_reverse_def skip_filter_nat Let_def)
qed

text \<open>
  Claim C4, as amended. On a list of 2-D matrices, \<open>khatri_rao\<close> fails with a value error
  exactly when fewer than 2 matrices are given (counted before the \<open>skip_matrix\<close> filter
  is applied) or the matrices left after skipping do not all share one column count;
  in every other case it returns a result. So a call on 3 matrices with \<open>skip_matrix\<close>
  set succeeds when the 2 left agree in columns, and a call on 2 matrices with
  \<open>skip_matrix\<close> set succeeds as well.
\<close>

theorem khatri_rao_value_error:
  assumes two: "list_all (\<lambda>m. ndim m = 2) ms"
  shows "(khatri_rao astype ms skip rv = Inl ValueError)
       = (length ms < 2 \<or> \<not> same_columns (skip_reverse ms skip rv))
     \<and> (\<exists>res. khatri_rao astype ms skip rv = Inr res)
       = (\<not> (length ms < 2 \<or> \<not> same_columns (skip_reverse ms skip rv)))
     \<and> (length ms = 2 \<and> k < 2 \<longrightarrow> (\<exists>res. khatri_rao astype ms (Some (int k)) rv = Inr res))"
proof -
  have main: "(khatri_rao astype ms s rv = Inl ValueError)
       = (length ms < 2 \<or> \<not> same_columns (skip_reverse ms s rv))
     \<and> (\<exists>res. khatri_rao astype ms s rv = Inr res)
       = (\<not> (length ms < 2 \<or> \<not> same_columns (skip_reverse ms s rv)))" for s
  proof (cases "length ms < 2")
    case True
    then show ?thesis by (simp add: khatri_rao_def)
  next
    case False
    then have len: "2 \<le> length ms" by simp
    then obtain first rest where sel: "skip_reverse ms s rv = first # rest"
      using skip_reverse_nonempty [of ms s rv] by (cases "skip_reverse ms s rv") auto
    show ?thesis
      using False by (simp add: khatri_rao_2d [OF two len sel] sel)
  qed
  have pair: "\<exists>res. khatri_rao astype ms (Some (int k)) rv = Inr res" if p: "length ms = 2" "k < 2"
  proof -
    obtain m where "skip_reverse ms (Some (int k)) rv = [m]"
      using skip_reverse_pair [OF p] by blast
    then have "same_columns (skip_reverse ms (Some (int k)) rv)"
      by (simp add: same_columns_single)
    with main [of "Some (int k)"] p show ?thesis by simp
  qed
  from main [of skip] pair show ?thesis by blast
qed

theorem khatri_rao_value_error_witness:
  "list_all (\<lambda>m. ndim m = 2)
      [\<lparr>shape = [1, 2], flat = [1, 2 :: real]\<rparr>, \<lparr>shape = [2, 2], flat = [3, 4, 5, 6]\<rparr>,
       \<lparr>shape = [1, 3], flat = [7, 8, 9]\<rparr>]
   \<and> khatri_rao id [\<lparr>shape = [1, 2], flat = [1, 2 :: real]\<rparr>, \<lparr>shape = [2, 2], flat = [3, 4, 5, 6]\<rparr>,
              \<lparr>shape = [1, 3], flat = [7, 8, 9]\<rparr>] (Some 2) False
       = Inr \<lparr>shape = [2, 2], flat = [3, 8, 5, 12]\<rparr>
   \<and> khatri_rao id [\<lparr>shape = [1, 2], flat = [1, 2 :: real]\<rparr>, \<lparr>shape = [2, 2], flat = [3, 4, 5, 6]\<rparr>,
              \<lparr>shape = [1, 3], flat = [7, 8, 9]\<rparr>] (Some 1) False
       = Inl ValueError"
proof -
  let ?ms = "[\<lparr>shape = [1, 2], flat = [1, 2 :: real]\<rparr>, \<lparr>shape = [2, 2], flat = [3, 4, 5, 6]\<rparr>,
              \<lparr>shape = [1, 3], flat = [7, 8, 9]\<rparr>]"
  have two: "list_all (\<lambda>m. ndim m = 2) ?ms" by (simp add: ndim_def)
  have s1: "\<not> same_columns (skip_reverse ?ms (Some 1) False)" by code_simp
  have "khatri_rao id ?ms (Some 1) False = Inl ValueError"
    using khatri_rao_value_error [OF two, where astype = id and skip = "Some 1" and rv = False] s1
    by simp
  moreover have "khatri_rao id ?ms (Some 2) False = Inr \<lparr>shape = [2, 2], flat = [3, 8, 5, 12]\<rparr>"
    by code_simp
  ultimately show ?thesis using two by simp
qed

text \<open>
  The claim as stated fails on 2 matrices with \<open>skip_matrix\<close> set: one matrix is left
  and the call returns it, with no value error.
\<close>

theorem khatri_rao_one_remaining_counterexample:
  "length (skip_filter [\<lparr>shape = [2, 2], flat = [1, 2, 3, 4 :: real]\<rparr>,
                         \<lparr>shape = [1, 2], flat = [5, 6]\<rparr>] (Some 1)) = 1
   \<and> khatri_rao id [\<lparr>shape = [2, 2], flat = [1, 2, 3, 4 :: real]\<rparr>, \<lparr>shape = [1, 2], flat = [5, 6]\<rparr>]
        (Some 1) False
       = Inr \<lparr>shape = [2, 2], flat = [1, 2, 3, 4]\<rparr>"
  by code_simp

section \<open>Columns of the Khatri-Rao product\<close>











lemma float64_of_int_exact:
  assumes "\<bar>n\<bar> < 2 ^ 53"
  shows "float64_of_int n = of_int n"
proof -
  have "bitlen \<bar>n\<bar> \<le> 53"
  proof (rule ccontr)
    assume "\<not> bitlen \<bar>n\<bar> \<le> 53"
    then have b: "54 \<le> bitlen \<bar>n\<bar>" by simp
    then have pos: "0 < \<bar>n\<bar>"
      by (cases "n = 0") simp_all
    have "(2 :: int) ^ 53 \<le> 2 ^ nat (bitlen \<bar>n\<bar> - 1)"
      using b by (intro power_increasing) simp_all
    also have "\<dots> \<le> \<bar>n\<bar>"
      using bitlen_bounds [OF pos] by simp
    finally show False using assms by simp
  qed
  then have e: "nat (bitlen \<bar>n\<bar>) - 53 = 0" by simp
  have "sgn n * \<bar>n\<bar> * 2 ^ 0 = n"
    by (simp add: mult_sgn_abs)
  then show ?thesis
    unfolding float64_of_int_def Let_def e by simp
qed




section \<open>Shape of the mode-n product\<close>

lemma shape_moved_back:
  assumes m: "m < length sh"
  shows "map (\<lambda>ax. (J # take m sh @ drop (Suc m) sh) ! ax)
           ([Suc 0..<Suc m] @ 0 # [Suc m..<length sh]) = sh[m := J]"
proof (rule nth_equalityI)
  show "length (map (\<lambda>ax. (J # take m sh @ drop (Suc m) sh) ! ax)
           ([Suc 0..<Suc m] @ 0 # [Suc m..<length sh])) = length (sh[m := J])"
    using m by (simp del: upt_Suc)
next
  fix j
  assume "j < length (map (\<lambda>ax. (J # take m sh @ drop (Suc m) sh) ! ax)
           ([Suc 0..<Suc m] @ 0 # [Suc m..<length sh]))"
  then have j: "j < length sh"
    using m by (simp del: upt_Suc)
  have len: "j < length ([Suc 0..<Suc m] @ 0 # [Suc m..<length sh])"
    using m j by (simp del: upt_Suc)
  have q: "([Suc 0..<Suc m] @ 0 # [Suc m..<length sh]) ! j
      = (if j < m then Suc j else if j = m then 0 else j)"
    using m j by (rule nth_back_axes)
  consider "j < m" | "j = m" | "m < j" by linarith
  then have "(J # take m sh @ drop (Suc m) sh) ! (if j < m then Suc j else if j = m then 0 else j)
      = sh[m := J] ! j"
  proof cases
    case 1
    then show ?thesis using m by (simp add: nth_append)
  next
    case 2
    then show ?thesis using m by simp
  next
    case 3
    then obtain i where i: "j = Suc (m + i)" using less_iff_Suc_add by auto
    then show ?thesis using m j by (simp add: nth_append min_def)
  qed
  then show "map (\<lambda>ax. (J # take m sh @ drop (Suc m) sh) ! ax)
           ([Suc 0..<Suc m] @ 0 # [Suc m..<length sh]) ! j = sh[m := J] ! j"
    unfolding nth_map [OF len] q .
qed

lemma well_formed_np_transpose: "well_formed (np_transpose a axes)"
  by (simp add: well_formed_def np_transpose_def Let_def)

lemma dot_2d:
  assumes "shape a = [j, d]" "shape b = [d, r]"
  shows "\<exists>p. dot a b = Inr p \<and> shape p = [j, r]"
  using assms by (simp add: dot_def)

lemma setitem_in_range:
  "m < length xs \<Longrightarrow> setitem xs (int m) v = Inr (xs[m := v])"
  by (simp add: setitem_def normalize_index_def)

lemma pop_updated:
  "m < length xs \<Longrightarrow> pop (xs[m := v]) (int m) = Inr (v, take m xs @ drop (Suc m) xs)"
  by (simp add: pop_def normalize_index_def)

text \<open>
  Claim C7, as amended. For every tensor, every mode \<open>0 \<le> mode < N\<close> whose dimension
  \<open>tensor.shape[mode]\<close> is not zero and every 2-D matrix with
  \<open>matrix.shape[1] = tensor.shape[mode]\<close>, \<open>mode_n_product(tensor, matrix, mode)\<close> returns
  \<open>fold(matrix \<cdot> unfold(tensor, mode), mode, new_shape)\<close>, where \<open>new_shape\<close> is the tensor's
  shape with the entry at position \<open>mode\<close> replaced by \<open>matrix.shape[0]\<close>; each of the three
  steps succeeds, and the result has the shape \<open>new_shape\<close>.
\<close>

theorem mode_n_product_shape:
  assumes two: "ndim matrix = 2"
    and m0: "0 \<le> mode" and m1: "mode < int (ndim tensor)"
    and cols: "shape matrix ! 1 = shape tensor ! nat mode"
    and nz: "shape tensor ! nat mode \<noteq> 0"
  shows "\<exists>u p res.
      unfold tensor mode = Inr u \<and> dot matrix u = Inr p
      \<and> fold_nd p mode ((shape tensor)[nat mode := shape matrix ! 0]) = Inr res
      \<and> mode_n_product tensor matrix mode = Inr res
      \<and> shape res = (shape tensor)[nat mode := shape matrix ! 0]
      \<and> well_formed res"
proof -
  define m where "m = nat mode"
  define sh where "sh = shape tensor"
  define J where "J = shape matrix ! 0"
  have mode: "mode = int m" and m: "m < ndim tensor" and ml: "m < length sh"
    using m0 m1 by (simp_all add: m_def sh_def ndim_def)
  have nz': "shape tensor ! m \<noteq> 0"
    using nz by (simp add: m_def)
  let ?rest = "take m sh @ drop (Suc m) sh"
  let ?p = "m # [0..<m] @ [Suc m..<ndim tensor]"
  let ?q = "[Suc 0..<Suc m] @ 0 # [Suc m..<length sh]"
  let ?u = "\<lparr>shape = [sh ! m, prod_list ?rest], flat = flat (np_transpose tensor ?p)\<rparr>"
  have u: "unfold tensor mode = Inr ?u"
    unfolding mode sh_def by (rule unfold_ok [OF m nz'])
  obtain r c where "shape matrix = [r, c]"
    using two_dim_shape [OF two] by blast
  then have shm: "shape matrix = [J, sh ! m]"
    using cols by (simp add: J_def sh_def m_def)
  obtain p where p: "dot matrix ?u = Inr p" and shp: "shape p = [J, prod_list ?rest]"
    using dot_2d [OF shm, of ?u "prod_list ?rest"] by auto
  have set: "setitem sh mode J = Inr (sh[m := J])"
    unfolding mode using ml by (rule setitem_in_range)
  have pop: "pop (sh[m := J]) mode = Inr (J, ?rest)"
    unfolding mode using ml by (rule pop_updated)
  let ?t = "\<lparr>shape = J # ?rest, flat = flat p\<rparr>"
  have re: "reshape p (map int (J # ?rest)) = Inr ?t"
    by (rule reshape_full) (simp add: shp)
  have nd: "ndim ?t = length sh"
    using ml by (simp add: ndim_def)
  have mv: "moveaxis ?t 0 mode = Inr (np_transpose ?t ?q)"
    unfolding mode using moveaxis_from_front [of m ?t] ml by (simp add: nd)
  have f: "fold_nd p mode (sh[m := J]) = Inr (np_transpose ?t ?q)"
    using pop re mv by (simp add: fold_nd_def)
  have shr: "shape (np_transpose ?t ?q) = sh[m := J]"
    using shape_moved_back [OF ml, of J] by (simp add: shape_np_transpose)
  have mp: "mode_n_product tensor matrix mode = Inr (np_transpose ?t ?q)"
    using two set u p f by (simp add: mode_n_product_def sh_def [symmetric] J_def [symmetric])
  show ?thesis
    using u p f mp shr well_formed_np_transpose [of ?t ?q]
    unfolding sh_def [symmetric] J_def [symmetric] m_def [symmetric]
    by blast
qed

theorem mode_n_product_shape_witness:
  "ndim \<lparr>shape = [2, 2], flat = [1, 2, 3, 4 :: int]\<rparr> = 2
   \<and> (0 :: int) \<le> 0 \<and> 0 < int (ndim \<lparr>shape = [2, 3, 2], flat = map int [0..<12]\<rparr>)
   \<and> shape \<lparr>shape = [2, 2], flat = [1, 2, 3, 4 :: int]\<rparr> ! 1
       = shape \<lparr>shape = [2, 3, 2], flat = map int [0..<12]\<rparr> ! nat 0
   \<and> shape \<lparr>shape = [2, 3, 2], flat = map int [0..<12]\<rparr> ! nat 0 \<noteq> 0
   \<and> mode_n_product \<lparr>shape = [2, 3, 2], flat = map int [0..<12]\<rparr>
         \<lparr>shape = [2, 2], flat = [1, 2, 3, 4]\<rparr> 0
       = Inr \<lparr>shape = [2, 3, 2], flat = [12, 15, 18, 21, 24, 27, 24, 31, 38, 45, 52, 59]\<rparr>"
proof -
  have v: "mode_n_product \<lparr>shape = [2, 3, 2], flat = map int [0..<12]\<rparr>
         \<lparr>shape = [2, 2], flat = [1, 2, 3, 4]\<rparr> 0
       = Inr \<lparr>shape = [2, 3, 2], flat = [12, 15, 18, 21, 24, 27, 24, 31, 38, 45, 52, 59]\<rparr>"
    by code_simp
  show ?thesis
    using v mode_n_product_shape [of "\<lparr>shape = [2, 2], flat = [1, 2, 3, 4 :: int]\<rparr>" 0
        "\<lparr>shape = [2, 3, 2], flat = map int [0..<12]\<rparr>"]
    by (simp add: ndim_def)
qed

text \<open>
  The claim as stated fails when the contracted mode has dimension zero: the matrix
  has zero columns, as the claim requires, and \<open>unfold\<close> raises a ValueError, so there
  is no result.
\<close>

theorem mode_n_product_empty_mode_counterexample:
  "ndim \<lparr>shape = [2, 0], flat = [] :: int list\<rparr> = 2
   \<and> shape \<lparr>shape = [2, 0], flat = [] :: int list\<rparr> ! 1
       = shape \<lparr>shape = [0, 3], flat = [] :: int list\<rparr> ! 0
   \<and> mode_n_product \<lparr>shape = [0, 3], flat = []\<rparr> \<lparr>shape = [2, 0], flat = [] :: int list\<rparr> 0
       = Inl ValueError"
  by code_simp

end
